theory Spec2Isabelle
  imports Complex_Main "HOL-Library.Sublist" "HOL-Library.List_Lexorder"
begin

section \<open>Python values\<close>

text \<open>
  A Python \<open>str\<close> is a sequence of Unicode code points, so a string is a list of natural
  numbers. Literals of the source that are plain ASCII are written as HOL strings and
  converted by \<open>cp\<close>.
\<close>

type_synonym pystr = "nat list"

definition cp :: "string \<Rightarrow> pystr" where
  "cp s = map of_char s"

text \<open>Exceptions are values; each carries the message \<open>str(e)\<close> prints.\<close>

datatype exn = ValueError pystr | KeyError pystr | TypeError pystr | ModelError pystr

fun exn_str :: "exn \<Rightarrow> pystr" where
  "exn_str (ValueError m) = m"
| "exn_str (KeyError m) = m"
| "exn_str (TypeError m) = m"
| "exn_str (ModelError m) = m"

text \<open>
  A DataFrame cell of a text column is a string or missing (\<open>NaN\<close>/\<open>None\<close>).
  A row is read by column name; a DataFrame is its list of column names and its rows in
  positional order. None of the functions below looks at index labels: they use boolean
  masks, \<open>iloc\<close> and list assignment, which are positional.
\<close>

datatype cell = NA | Str pystr

type_synonym row = "(pystr \<times> cell) list"

record dataframe =
  columns :: "pystr list"
  rows :: "row list"

definition get :: "row \<Rightarrow> pystr \<Rightarrow> cell" where
  "get r c = (case map_of r c of None \<Rightarrow> NA | Some v \<Rightarrow> v)"

text \<open>\<open>str(x)\<close> of a cell: a float NaN prints as \<open>nan\<close>.\<close>

fun py_str :: "cell \<Rightarrow> pystr" where
  "py_str NA = cp ''nan''"
| "py_str (Str s) = s"

section \<open>Decimal formatting\<close>

text \<open>\<open>str(n)\<close> for a non-negative integer, and the format spec \<open>06d\<close>: the decimal
  digits, padded with zeros on the left up to a width of at least six.\<close>

fun dec :: "nat \<Rightarrow> pystr" where
  "dec n = (if n < 10 then [48 + n] else dec (n div 10) @ [48 + n mod 10])"

declare dec.simps [simp del]

definition fmt_06d :: "nat \<Rightarrow> pystr" where
  "fmt_06d i = replicate (6 - length (dec i)) 48 @ dec i"

section \<open>Text preprocessor: identifiers\<close>

text \<open>
  \<^verbatim>\<open>df["unique_id"] = [f"ID{i:06d}" for i in range(1, len(df) + 1)]\<close>
  Assigning a list to a column writes it row by row; an existing column keeps its place,
  a new one is appended.
\<close>

definition unique_id_col :: pystr where
  "unique_id_col = cp ''unique_id''"

definition id_of :: "nat \<Rightarrow> pystr" where
  "id_of i = cp ''ID'' @ fmt_06d i"

definition set_cell :: "pystr \<Rightarrow> cell \<Rightarrow> row \<Rightarrow> row" where
  "set_cell c v r = (if c \<in> fst ` set r then map (\<lambda>(k, w). if k = c then (k, v) else (k, w)) r
                     else r @ [(c, v)])"

definition set_column :: "pystr \<Rightarrow> cell list \<Rightarrow> dataframe \<Rightarrow> dataframe" where
  "set_column c vs df =
     \<lparr>columns = (if c \<in> set (columns df) then columns df else columns df @ [c]),
      rows = map (\<lambda>(v, r). set_cell c v r) (zip vs (rows df))\<rparr>"

definition generate_unique_ids :: "dataframe \<Rightarrow> dataframe" where
  "generate_unique_ids df =
     set_column unique_id_col (map (\<lambda>i. Str (id_of i)) [1..<Suc (length (rows df))]) df"

definition unique_ids :: "dataframe \<Rightarrow> cell list" where
  "unique_ids df = map (\<lambda>r. get r unique_id_col) (rows df)"

text \<open>Reading an identifier back: the shape \<open>ID\<close> plus exactly six decimal digits, and the
  number the digits after the prefix denote.\<close>

definition is_digit :: "nat \<Rightarrow> bool" where
  "is_digit d = (48 \<le> d \<and> d \<le> 57)"

definition val :: "pystr \<Rightarrow> nat" where
  "val s = foldl (\<lambda>a d. 10 * a + (d - 48)) 0 s"

definition six_digit_id :: "pystr \<Rightarrow> bool" where
  "six_digit_id s = (take 2 s = cp ''ID'' \<and> length s = 8 \<and> list_all is_digit (drop 2 s))"

definition id_value :: "pystr \<Rightarrow> nat" where
  "id_value s = val (drop 2 s)"

definition three_rows :: dataframe where
  "three_rows = \<lparr>columns = [cp ''t''],
                  rows = [[(cp ''t'', Str (cp ''x''))], [(cp ''t'', NA)], [(cp ''t'', Str (cp ''y''))]]\<rparr>"

definition million_rows :: dataframe where
  "million_rows = \<lparr>columns = [], rows = replicate 1000000 []\<rparr>"


section \<open>Text preprocessor: validity filter\<close>

text \<open>
  The character classes are library data, not code of the repository: what \<open>str.strip()\<close>
  removes and what \<open>str.isdigit()\<close> accepts (CPython), and the classes \<open>\s\<close>, \<open>\p{P}\<close>,
  \<open>\p{L}\<close>, \<open>\p{N}\<close> of the \<open>regex\<close> module. They are a parameter of the model.
\<close>

record unicode_db =
  py_space :: "nat \<Rightarrow> bool"
  re_space :: "nat \<Rightarrow> bool"
  re_punct :: "nat \<Rightarrow> bool"
  py_digit :: "nat \<Rightarrow> bool"
  re_letter :: "nat \<Rightarrow> bool"
  re_number :: "nat \<Rightarrow> bool"

definition strip :: "unicode_db \<Rightarrow> pystr \<Rightarrow> pystr" where
  "strip U s = rev (dropWhile (py_space U) (rev (dropWhile (py_space U) s)))"

definition newline :: nat where
  "newline = 10"

text \<open>
  Regular expressions are matched by continuation: \<open>star_then P K\<close> is \<open>[P]*\<close> followed by
  the rest of the pattern \<open>K\<close>, trying every number of repetitions as the backtracking
  matcher does. \<open>at_end\<close> is \<open>$\<close> (end of the string, or just before a final newline);
  \<open>group K\<close> is \<open>(.)\1*\<close> followed by \<open>K\<close>, where \<open>.\<close> is any character but a newline.
\<close>

fun star_then :: "(nat \<Rightarrow> bool) \<Rightarrow> (pystr \<Rightarrow> bool) \<Rightarrow> pystr \<Rightarrow> bool" where
  "star_then P K [] = K []"
| "star_then P K (c # r) = (K (c # r) \<or> (P c \<and> star_then P K r))"

definition plus_then :: "(nat \<Rightarrow> bool) \<Rightarrow> (pystr \<Rightarrow> bool) \<Rightarrow> pystr \<Rightarrow> bool" where
  "plus_then P K s = (case s of [] \<Rightarrow> False | c # r \<Rightarrow> P c \<and> star_then P K r)"

definition at_end :: "pystr \<Rightarrow> bool" where
  "at_end s = (s = [] \<or> s = [newline])"

definition group :: "(pystr \<Rightarrow> bool) \<Rightarrow> pystr \<Rightarrow> bool" where
  "group K s = (case s of [] \<Rightarrow> False | c # r \<Rightarrow> c \<noteq> newline \<and> star_then (\<lambda>x. x = c) K r)"

text \<open>\<^verbatim>\<open>re.match(r"^[\s\p{P}]+$", text, re.UNICODE)\<close>\<close>

definition space_punct_only :: "unicode_db \<Rightarrow> pystr \<Rightarrow> bool" where
  "space_punct_only U s = plus_then (\<lambda>c. re_space U c \<or> re_punct U c) at_end s"

text \<open>\<^verbatim>\<open>re.match(r"^(.)\1*(?:(.)\2*){0,2}$", text)\<close>: zero, one or two further groups.\<close>

definition repeat_pattern :: "pystr \<Rightarrow> bool" where
  "repeat_pattern s = group (\<lambda>r1. at_end r1 \<or> group (\<lambda>r2. at_end r2 \<or> group at_end r2) r1) s"

definition isdigit :: "unicode_db \<Rightarrow> pystr \<Rightarrow> bool" where
  "isdigit U s = (s \<noteq> [] \<and> list_all (py_digit U) s)"

definition alnum :: "unicode_db \<Rightarrow> nat \<Rightarrow> bool" where
  "alnum U c = (re_letter U c \<or> re_number U c)"

text \<open>
  \<^verbatim>\<open>
  def is_valid_text(text):
      if pd.isna(text): return False
      text = str(text).strip()
      if (not text or re.match(r"^[\s\p{P}]+$", text, re.UNICODE) or text.isdigit()
          or len(set(text)) == 1 or re.match(r"^(.)\1*(?:(.)\2*){0,2}$", text)
          or not re.search(r"[\p{L}\p{N}]", text, re.UNICODE)):
          return False
      return True
  \<close>
\<close>

fun is_valid_text :: "unicode_db \<Rightarrow> cell \<Rightarrow> bool" where
  "is_valid_text U NA = False"
| "is_valid_text U (Str s) =
     (let t = strip U s in
      if t = [] \<or> space_punct_only U t \<or> isdigit U t \<or> card (set t) = 1
         \<or> repeat_pattern t \<or> \<not> list_ex (alnum U) t
      then False else True)"

text \<open>
  \<^verbatim>\<open>df[df[text_col].apply(is_valid_text)]\<close>: a boolean mask keeps the rows whose flag is
  true. The model follows the rows. Of the columns nothing is stated below: on a frame
  without rows the empty mask is not taken as a boolean mask by pandas.
\<close>

definition filter_invalid_text :: "unicode_db \<Rightarrow> dataframe \<Rightarrow> pystr \<Rightarrow> exn + dataframe" where
  "filter_invalid_text U df text_col =
     (if text_col \<notin> set (columns df)
      then Inl (ValueError (cp ''Specified column '' @ [39] @ text_col @ [39]
                            @ cp '' does not exist in DataFrame''))
      else Inr (df\<lparr>rows := filter (\<lambda>r. is_valid_text U (get r text_col)) (rows df)\<rparr>))"

text \<open>The tables restricted to the ASCII range, for running the model on examples.\<close>

definition ascii_db :: unicode_db where
  "ascii_db = \<lparr>
     py_space = (\<lambda>c. (9 \<le> c \<and> c \<le> 13) \<or> (28 \<le> c \<and> c \<le> 32)),
     re_space = (\<lambda>c. (9 \<le> c \<and> c \<le> 13) \<or> c = 32),
     re_punct = (\<lambda>c. c \<in> set [33, 34, 35, 37, 38, 39, 40, 41, 42, 44, 45, 46, 47, 58, 59, 63, 64,
                                91, 92, 93, 95, 123, 125]),
     py_digit = (\<lambda>c. 48 \<le> c \<and> c \<le> 57),
     re_letter = (\<lambda>c. (65 \<le> c \<and> c \<le> 90) \<or> (97 \<le> c \<and> c \<le> 122)),
     re_number = (\<lambda>c. 48 \<le> c \<and> c \<le> 57)\<rparr>"

text \<open>
  What the general categories of Unicode guarantee and the proofs below use: a letter or
  number is no white space, no punctuation and not the newline, and a letter is no digit.
\<close>

definition tables_disjoint :: "unicode_db \<Rightarrow> bool" where
  "tables_disjoint U =
     ((\<forall>c. alnum U c \<longrightarrow> \<not> py_space U c \<and> \<not> re_space U c \<and> \<not> re_punct U c \<and> c \<noteq> newline)
      \<and> (\<forall>c. re_letter U c \<longrightarrow> \<not> py_digit U c))"

text \<open>A run \<open>w\<close> of at least \<open>n\<close> pairwise distinct letters or numbers standing together in \<open>s\<close>.\<close>

definition alnum_run :: "unicode_db \<Rightarrow> nat \<Rightarrow> pystr \<Rightarrow> pystr \<Rightarrow> bool" where
  "alnum_run U n w s = (sublist w s \<and> n \<le> length w \<and> distinct w \<and> list_all (alnum U) w)"

text \<open>Four rows: an empty text, two valid sentences around a text of punctuation only.\<close>

definition sample_frame :: dataframe where
  "sample_frame = \<lparr>columns = [cp ''text''],
     rows = [[(cp ''text'', Str [])],
             [(cp ''text'', Str (cp ''hello world this is valid''))],
             [(cp ''text'', Str (cp ''???''))],
             [(cp ''text'', Str (cp ''second valid row''))]]\<rparr>"

section \<open>Batcher\<close>

text \<open>
  Both batchers walk \<^verbatim>\<open>range(0, len(df), size)\<close> and cut \<^verbatim>\<open>iloc[i : i + size]\<close>.
  \<open>range_from i n step\<close> is \<open>range(i, n, step)\<close> for a positive step; \<open>py_range\<close> adds what
  Python does with the other steps: zero raises, a negative step from 0 yields nothing.
\<close>

function range_from :: "nat \<Rightarrow> nat \<Rightarrow> nat \<Rightarrow> nat list" where
  "range_from i n step = (if step = 0 \<or> n \<le> i then [] else i # range_from (i + step) n step)"
  by pat_completeness auto
termination
  by (relation "measure (\<lambda>(i, n, step). n - i)") auto

declare range_from.simps [simp del]

definition py_range :: "nat \<Rightarrow> int \<Rightarrow> exn + nat list" where
  "py_range n step =
     (if step = 0 then Inl (ValueError (cp ''range() arg 3 must not be zero''))
      else if step < 0 then Inr []
      else Inr (range_from 0 n (nat step)))"

definition iloc_slice :: "nat \<Rightarrow> nat \<Rightarrow> 'a list \<Rightarrow> 'a list" where
  "iloc_slice i j xs = take (j - i) (drop i xs)"

definition batches :: "'a list \<Rightarrow> nat \<Rightarrow> 'a list list" where
  "batches xs n = map (\<lambda>i. iloc_slice i (i + n) xs) (range_from 0 (length xs) n)"

text \<open>\<open>sep.join(items)\<close>\<close>

fun join :: "pystr \<Rightarrow> pystr list \<Rightarrow> pystr" where
  "join sep [] = []"
| "join sep [x] = x"
| "join sep (x # y # r) = x @ sep @ join sep (y # r)"

text \<open>Running a fallible step over a list stops at the first exception.\<close>

fun traverse :: "('a \<Rightarrow> exn + 'b) \<Rightarrow> 'a list \<Rightarrow> exn + 'b list" where
  "traverse f [] = Inr []"
| "traverse f (x # xs) =
     (case f x of Inl e \<Rightarrow> Inl e
      | Inr y \<Rightarrow> (case traverse f xs of Inl e \<Rightarrow> Inl e | Inr ys \<Rightarrow> Inr (y # ys)))"

text \<open>
  \<^verbatim>\<open>
  return [" ".join(df[text_column].iloc[i : i + batch_size].tolist())
          for i in range(0, len(df), batch_size)]
  \<close>
  The range is built first; the column is read and joined once per start index, so a
  missing column or a missing value raises only if there is at least one batch.
\<close>

definition join_cells :: "cell list \<Rightarrow> exn + pystr" where
  "join_cells cs =
     (if NA \<in> set cs then Inl (TypeError (cp ''expected str instance, float found''))
      else Inr (join [32] (map py_str cs)))"

definition batch_texts :: "dataframe \<Rightarrow> pystr \<Rightarrow> int \<Rightarrow> exn + pystr list" where
  "batch_texts df text_column batch_size =
     (case py_range (length (rows df)) batch_size of
        Inl e \<Rightarrow> Inl e
      | Inr starts \<Rightarrow>
          traverse (\<lambda>i. if text_column \<notin> set (columns df) then Inl (KeyError text_column)
                         else join_cells (iloc_slice i (i + nat batch_size)
                                            (map (\<lambda>r. get r text_column) (rows df))))
                   starts)"

subsection \<open>Markdown tables\<close>

text \<open>\<^verbatim>\<open>df.dropna(subset=cols, how=nan_drop_method)\<close>\<close>

definition has_na :: "pystr list \<Rightarrow> row \<Rightarrow> bool" where
  "has_na cols r = list_ex (\<lambda>c. get r c = NA) cols"

definition dropna :: "pystr list \<Rightarrow> pystr \<Rightarrow> row list \<Rightarrow> row list" where
  "dropna cols how rs =
     filter (\<lambda>r. if how = cp ''any'' then \<not> has_na cols r
                  else \<not> list_all (\<lambda>c. get r c = NA) cols) rs"

text \<open>\<^verbatim>\<open>.str.replace("\r\n|\n", " ", regex=True)\<close>: at each position CR LF first, then LF.\<close>

fun nl_to_space :: "pystr \<Rightarrow> pystr" where
  "nl_to_space [] = []"
| "nl_to_space [c] = [if c = 10 then 32 else c]"
| "nl_to_space (c # d # r) =
     (if c = 13 \<and> d = 10 then 32 # nl_to_space r
      else if c = 10 then 32 # nl_to_space (d # r)
      else c # nl_to_space (d # r))"

fun clean_cell :: "cell \<Rightarrow> cell" where
  "clean_cell NA = NA"
| "clean_cell (Str s) = Str (nl_to_space s)"

text \<open>\<open>table_data = cleaned_df[cols]\<close>: one list of cells per surviving row, in the order of \<open>cols\<close>.\<close>

definition table_row :: "pystr list \<Rightarrow> row \<Rightarrow> cell list" where
  "table_row cols r = map (\<lambda>c. clean_cell (get r c)) cols"

definition table_data :: "dataframe \<Rightarrow> pystr list \<Rightarrow> pystr \<Rightarrow> cell list list" where
  "table_data df cols how = map (table_row cols) (dropna cols how (rows df))"

definition md_line :: "pystr list \<Rightarrow> pystr" where
  "md_line items = cp ''| '' @ join (cp '' | '') items @ cp '' |'' @ [10]"

definition render_table :: "pystr list \<Rightarrow> cell list list \<Rightarrow> pystr" where
  "render_table cols table_subset =
     md_line cols @ md_line (map (\<lambda>c. cp ''---'') cols)
     @ concat (map (\<lambda>cells. md_line (map py_str cells)) table_subset)"

datatype md_output = MdList "pystr list" | MdFrame "pystr list"

definition table_batches :: "dataframe \<Rightarrow> pystr list \<Rightarrow> nat \<Rightarrow> pystr \<Rightarrow> cell list list list" where
  "table_batches df cols rows_per_table how = batches (table_data df cols how) rows_per_table"

definition dataframe_to_markdown_tables ::
  "dataframe \<Rightarrow> pystr list \<Rightarrow> int \<Rightarrow> pystr \<Rightarrow> pystr \<Rightarrow> exn + md_output" where
  "dataframe_to_markdown_tables df cols rows_per_table nan_drop_method output_format =
     (if \<not> list_all (\<lambda>c. c \<in> set (columns df)) cols
        then Inl (ValueError (cp ''cols must be a valid list of column names''))
      else if rows_per_table \<le> 0
        then Inl (ValueError (cp ''rows_per_table must be a positive integer''))
      else if nan_drop_method \<notin> set [cp ''any'', cp ''all'']
        then Inl (ValueError (cp ''nan_drop_method must be 'any' or 'all'' @ [39]))
      else if output_format \<notin> set [cp ''list'', cp ''dataframe'']
        then Inl (ValueError (cp ''output_format must be 'list' or 'dataframe'' @ [39]))
      else let markdown_tables =
                 map (render_table cols) (table_batches df cols (nat rows_per_table) nan_drop_method)
           in Inr (if output_format = cp ''list'' then MdList markdown_tables
                   else MdFrame markdown_tables))"

section \<open>Batch classifier and result assembly\<close>

text \<open>
  Modelled from the spec: the result schema \<open>ClassificationResult\<close> and the prompts live in
  \<open>backend/clustering/clustering_core.py\<close>, which is not among the sources. The spec gives a
  classification record an \<open>id\<close> and a \<open>categories\<close> field: one category name in
  single-label mode, a set of names in multi-label mode. A set of names can reach the code
  as a JSON list of names or as a JSON object from names to Booleans; the model keeps all
  three shapes, so that what the code does with each of them can be stated.
\<close>

datatype catval = Label pystr | Names "pystr list" | Flags "(pystr \<times> bool) list"

record crecord =
  rec_id :: pystr
  rec_categories :: catval

text \<open>
  The chain is the language model behind \<open>classification_chain.invoke\<close> followed by the
  lookup \<open>result["classifications"]\<close>: for a table it raises or yields the records.
\<close>

type_synonym chain = "pystr \<Rightarrow> exn + crecord list"

text \<open>
  \<^verbatim>\<open>
  try:
      result = classification_chain.invoke({...}, config=config)
      return result["classifications"]
  except Exception as e:
      print(...); return []
  \<close>
\<close>

definition classify_single_batch :: "chain \<Rightarrow> pystr \<Rightarrow> crecord list" where
  "classify_single_batch classification_chain text_batch =
     (case classification_chain text_batch of Inl e \<Rightarrow> [] | Inr classifications \<Rightarrow> classifications)"

text \<open>
  The loop over the tables extends \<open>classification_results\<close> batch by batch. Writing the
  checkpoint file comes after the \<open>extend\<close> and inside the loop's own \<open>try\<close>, so a failure
  there leaves the accumulated list as it is; the file is not modelled.
\<close>

fun classify_loop :: "chain \<Rightarrow> pystr list \<Rightarrow> crecord list \<Rightarrow> crecord list" where
  "classify_loop ch [] classification_results = classification_results"
| "classify_loop ch (table # tables) classification_results =
     classify_loop ch tables (classification_results @ classify_single_batch ch table)"

text \<open>
  \<^verbatim>\<open>df.merge(df_classifications, left_on="unique_id", right_on="id", how="left")\<close>:
  the rows of the left frame in their order, each paired with every record whose \<open>id\<close> is
  its \<open>unique_id\<close>, or with nothing when there is none.
\<close>

definition merge_left :: "row list \<Rightarrow> crecord list \<Rightarrow> (row \<times> crecord option) list" where
  "merge_left rs recs =
     concat (map (\<lambda>r. case filter (\<lambda>c. get r unique_id_col = Str (rec_id c)) recs of
                          [] \<Rightarrow> [(r, None)]
                        | ms \<Rightarrow> map (\<lambda>m. (r, Some m)) ms) rs)"

text \<open>Cells of the classification columns of the result.\<close>

datatype field = Null | FBool bool | FStr pystr | FCat catval

record out_row =
  kept :: row
  class_fields :: "(pystr \<times> field) list"

definition drop_column :: "pystr \<Rightarrow> row \<Rightarrow> row" where
  "drop_column c r = filter (\<lambda>(k, v). k \<noteq> c) r"

text \<open>
  \<open>pd.Series(x)\<close> for a cell of the \<open>categories\<close> column: an object becomes a series indexed
  by its keys, a list one indexed by positions, a scalar (a name, or the NaN of a row the
  join left without a record) a series of length one at position 0.
\<close>

fun series_of :: "catval option \<Rightarrow> (pystr \<times> field) list" where
  "series_of None = [(dec 0, Null)]"
| "series_of (Some (Label s)) = [(dec 0, FStr s)]"
| "series_of (Some (Names xs)) = zip (map dec [0..<length xs]) (map FStr xs)"
| "series_of (Some (Flags d)) = map (\<lambda>(k, b). (k, FBool b)) d"

definition categories_cell :: "row \<times> crecord option \<Rightarrow> catval option" where
  "categories_cell p = map_option rec_categories (snd p)"

text \<open>
  \<^verbatim>\<open>
  category_columns = df_result["categories"].apply(pd.Series)
  category_columns = category_columns.add_prefix("category_")
  \<close>
  The frame built from the series has one column per key that occurs in any of them; a
  row holds under a key what its own series holds, and NaN where its series has no such key.
  The keys are listed in the order of their first occurrence; nothing below depends on the
  order of the columns.
\<close>

definition category_keys :: "(row \<times> crecord option) list \<Rightarrow> pystr list" where
  "category_keys joined =
     rev (remdups (rev (concat (map (\<lambda>p. map fst (series_of (categories_cell p))) joined))))"

definition expand_row :: "pystr list \<Rightarrow> catval option \<Rightarrow> (pystr \<times> field) list" where
  "expand_row keys v =
     map (\<lambda>k. (cp ''category_'' @ k, case map_of (series_of v) k of None \<Rightarrow> Null | Some f \<Rightarrow> f)) keys"

definition assemble :: "bool \<Rightarrow> (row \<times> crecord option) list \<Rightarrow> out_row list" where
  "assemble is_multi_label joined =
     (if is_multi_label
      then map (\<lambda>p. \<lparr>kept = drop_column unique_id_col (fst p),
                      class_fields = expand_row (category_keys joined) (categories_cell p)\<rparr>) joined
      else map (\<lambda>p. \<lparr>kept = drop_column unique_id_col (fst p),
                      class_fields = [(cp ''categories'',
                                 case categories_cell p of None \<Rightarrow> Null | Some v \<Rightarrow> FCat v)]\<rparr>) joined)"

text \<open>
  \<open>classify_texts\<close>. \<open>pd.DataFrame([])\<close> has no columns, so with an empty result list the
  merge finds no column \<open>id\<close> on the right and raises \<open>KeyError\<close>; it raises too when the
  left frame has no column \<open>unique_id\<close>. The frame is taken to have no columns of its own
  named \<open>id\<close> or \<open>categories\<close>. The tables are asked for in the list format, so the
  branch for the other format is never taken.
\<close>

definition classify_texts ::
  "chain \<Rightarrow> dataframe \<Rightarrow> pystr \<Rightarrow> pystr \<Rightarrow> int \<Rightarrow> bool \<Rightarrow> exn + out_row list" where
  "classify_texts ch df text_column id_column classification_batch_size is_multi_label =
     (case dataframe_to_markdown_tables df [id_column, text_column] classification_batch_size
             (cp ''any'') (cp ''list'') of
        Inl e \<Rightarrow> Inl e
      | Inr (MdFrame tables) \<Rightarrow> Inl (TypeError [])
      | Inr (MdList markdown_tables) \<Rightarrow>
          let classification_results = classify_loop ch markdown_tables [] in
          if classification_results = [] then Inl (KeyError (cp ''id''))
          else if unique_id_col \<notin> set (columns df) then Inl (KeyError unique_id_col)
          else Inr (assemble is_multi_label (merge_left (rows df) classification_results)))"


text \<open>The column of the result with a given name, row by row.\<close>

definition out_column :: "pystr \<Rightarrow> out_row list \<Rightarrow> field list" where
  "out_column name out =
     map (\<lambda>orow. case map_of (class_fields orow) name of None \<Rightarrow> Null | Some f \<Rightarrow> f) out"

text \<open>Two preprocessed rows, and chains that answer every table the same way.\<close>

definition two_rows :: dataframe where
  "two_rows = \<lparr>columns = [cp ''text'', unique_id_col],
     rows = [[(cp ''text'', Str (cp ''first text'')), (unique_id_col, Str (cp ''ID000001''))],
             [(cp ''text'', Str (cp ''second text'')), (unique_id_col, Str (cp ''ID000002''))]]\<rparr>"




definition failing_chain :: chain where
  "failing_chain table = Inl (ModelError (cp ''timeout''))"

definition flags_chain :: chain where
  "flags_chain table =
     Inr [\<lparr>rec_id = cp ''ID000001'', rec_categories = Flags [(cp ''A'', True), (cp ''B'', True)]\<rparr>,
          \<lparr>rec_id = cp ''ID000002'', rec_categories = Flags [(cp ''B'', True)]\<rparr>]"

definition names_chain :: chain where
  "names_chain table =
     Inr [\<lparr>rec_id = cp ''ID000001'', rec_categories = Names [cp ''A'', cp ''B'']\<rparr>,
          \<lparr>rec_id = cp ''ID000002'', rec_categories = Names [cp ''B'']\<rparr>]"

definition full_flags_chain :: chain where
  "full_flags_chain table =
     Inr [\<lparr>rec_id = cp ''ID000001'', rec_categories = Flags [(cp ''A'', True), (cp ''B'', True)]\<rparr>,
          \<lparr>rec_id = cp ''ID000002'', rec_categories = Flags [(cp ''A'', False), (cp ''B'', True)]\<rparr>]"

section \<open>Translator\<close>

text \<open>
  \<^verbatim>\<open>
  chinese_chars = re.findall("[\u4e00-\u9fff]", text)
  return len(chinese_chars) / len(text) >= 0.5 if text else False
  \<close>
  The range is U+4E00 .. U+9FFF, that is 19968 .. 40959. The quotient of the two lengths
  is taken in the reals; the floating-point quotient compares with 0.5 in the same way for
  every string a machine can hold.
\<close>

definition is_cjk :: "nat \<Rightarrow> bool" where
  "is_cjk c = (19968 \<le> c \<and> c \<le> 40959)"

definition contains_chinese :: "pystr \<Rightarrow> bool" where
  "contains_chinese s =
     (if s \<noteq> [] then (1 / 2 :: real) \<le> real (length (filter is_cjk s)) / real (length s)
      else False)"

text \<open>
  The translation chain is the language model behind \<open>translation_chain.ainvoke\<close>: given the
  text and the topic it raises or yields the parsed JSON value. \<open>Translator.translate\<close>
  calls it once, checks that the value is an object with the key \<open>translated_text\<close>, and
  re-raises whatever goes wrong.
\<close>

datatype json = JObject "(pystr \<times> pystr) list" | JOther

type_synonym tchain = "pystr \<Rightarrow> pystr \<Rightarrow> exn + json"

definition validate_translation_result :: "json \<Rightarrow> exn + pystr" where
  "validate_translation_result result =
     (case result of
        JOther \<Rightarrow> Inl (ValueError (cp ''Translation result format is incorrect''))
      | JObject kv \<Rightarrow>
          (case map_of kv (cp ''translated_text'') of
             None \<Rightarrow> Inl (ValueError (cp ''Translation result format is incorrect''))
           | Some v \<Rightarrow> Inr v))"

definition translate :: "tchain \<Rightarrow> pystr \<Rightarrow> pystr \<Rightarrow> exn + pystr" where
  "translate ch s text_topic =
     (case ch s text_topic of Inl e \<Rightarrow> Inl e | Inr result \<Rightarrow> validate_translation_result result)"

text \<open>
  What a task does is its result together with the number of model invocations it made.
  \<^verbatim>\<open>
  async def translate_with_semaphore(text):
      async with semaphore:
          if contains_chinese(text): return text
          return await translator.translate(text, text_topic, session_id)
  \<close>
  The semaphore bounds how many tasks run at once and has no part in what they return.
\<close>

type_synonym outcome = "(exn + pystr) \<times> nat"

definition translate_with_semaphore :: "tchain \<Rightarrow> pystr \<Rightarrow> pystr \<Rightarrow> outcome" where
  "translate_with_semaphore ch text_topic s =
     (if contains_chinese s then (Inr s, 0) else (translate ch s text_topic, 1))"

text \<open>
  \<open>asyncio.gather(*tasks)\<close> without \<open>return_exceptions\<close>: the results in the order of the
  tasks when all of them return, and otherwise the exception of a failed task, raised to
  the caller. Which failed task's exception arrives first depends on the schedule; the
  model takes the first in list order, and counts the invocations of all tasks.
\<close>

definition gather :: "outcome list \<Rightarrow> (exn + pystr list) \<times> nat" where
  "gather outs = (traverse fst outs, sum_list (map snd outs))"

definition batch_translate :: "tchain \<Rightarrow> pystr list \<Rightarrow> pystr \<Rightarrow> (exn + pystr list) \<times> nat" where
  "batch_translate ch texts text_topic = gather (map (translate_with_semaphore ch text_topic) texts)"

text \<open>
  The single-text path of the page:
  \<^verbatim>\<open>
  try:
      if contains_chinese(text): return text
      return await translator.translate(text, text_topic, session_id)
  except Exception as e:
      return f"<marker>: {str(e)}"
  \<close>
  where the marker is the four characters U+7FFB U+8BD1 U+9519 U+8BEF.
\<close>

definition error_marker :: pystr where
  "error_marker = [32763, 35793, 38169, 35823, 58, 32]"

definition translate_text :: "tchain \<Rightarrow> pystr \<Rightarrow> pystr \<Rightarrow> pystr \<times> nat" where
  "translate_text ch s text_topic =
     (if contains_chinese s then (s, 0)
      else (case translate ch s text_topic of
              Inl e \<Rightarrow> error_marker @ exn_str e
            | Inr v \<Rightarrow> v, 1))"

text \<open>
  The CSV path: \<open>perform_translation\<close> sends the whole column through \<open>batch_translate\<close> and
  writes the results as the column \<open>translated_text\<close>; it has no handler of its own.
\<close>

definition perform_translation :: "tchain \<Rightarrow> dataframe \<Rightarrow> pystr \<Rightarrow> pystr \<Rightarrow> exn + dataframe" where
  "perform_translation ch df text_column text_topic =
     (if text_column \<notin> set (columns df) then Inl (KeyError text_column)
      else case fst (batch_translate ch (map (\<lambda>r. py_str (get r text_column)) (rows df)) text_topic) of
             Inl e \<Rightarrow> Inl e
           | Inr translated_texts \<Rightarrow> Inr (set_column (cp ''translated_text'') (map Str translated_texts) df))"

text \<open>A model that fails on one text and answers the others, and one that always fails.\<close>

definition flaky_model :: tchain where
  "flaky_model s text_topic =
     (if s = cp ''bad'' then Inl (ModelError (cp ''timeout''))
      else Inr (JObject [(cp ''translated_text'', cp ''T:'' @ s)]))"

definition csv_frame :: dataframe where
  "csv_frame = \<lparr>columns = [cp ''text''],
     rows = [[(cp ''text'', Str (cp ''good''))], [(cp ''text'', Str (cp ''bad''))],
             [(cp ''text'', Str (cp ''fine''))]]\<rparr>"

definition broken_model :: tchain where
  "broken_model s text_topic = Inl (ModelError (cp ''unreachable''))"

section \<open>Structured LLM invoker\<close>


datatype pyobj = PStr pystr | PNone | PObject









section \<open>Identifier assignment: properties\<close>

lemma map_of_overwrite:
  "c \<in> fst ` set r \<Longrightarrow> map_of (map (\<lambda>(k, w). if k = c then (k, v) else (k, w)) r) c = Some v"
proof (induction r)
  case Nil
  then show ?case by simp
next
  case (Cons a r)
  obtain k w where a: "a = (k, w)" by (cases a)
  show ?case
  proof (cases "k = c")
    case True
    then show ?thesis by (simp add: a)
  next
    case False
    then have "c \<in> fst ` set r" using Cons.prems a by auto
    then show ?thesis using Cons.IH False by (simp add: a)
  qed
qed

lemma get_set_cell: "get (set_cell c v r) c = v"
proof (cases "c \<in> fst ` set r")
  case True
  then have "map_of (map (\<lambda>(k, w). if k = c then (k, v) else (k, w)) r) c = Some v"
    by (rule map_of_overwrite)
  with True show ?thesis by (simp add: set_cell_def get_def)
next
  case False
  then have "map_of r c = None" by (simp add: map_of_eq_None_iff)
  then have "map_of (r @ [(c, v)]) c = Some v" by (simp add: map_add_def)
  with False show ?thesis by (simp add: set_cell_def get_def del: map_of_append)
qed

lemma unique_ids_generate:
  "unique_ids (generate_unique_ids df) = map (\<lambda>i. Str (id_of i)) [1..<Suc (length (rows df))]"
proof -
  have "map (\<lambda>r. get r c) (map (\<lambda>(v, r). set_cell c v r) (zip vs rs)) = vs"
    if "length vs = length rs" for vs rs c
    using that by (induction vs rs rule: list_induct2) (auto simp: get_set_cell)
  then show ?thesis
    by (simp add: unique_ids_def generate_unique_ids_def set_column_def)
qed

lemma val_dec: "val (dec n) = n"
proof (induction n rule: dec.induct)
  case (1 n)
  show ?case
  proof (cases "n < 10")
    case True then show ?thesis by (simp add: dec.simps[of n] val_def)
  next
    case False
    with 1 show ?thesis by (simp add: dec.simps[of n] val_def)
  qed
qed

lemma val_zeros: "foldl (\<lambda>a d. 10 * a + (d - 48)) 0 (replicate k 48) = (0::nat)"
  by (induction k) auto

lemma val_fmt: "val (fmt_06d n) = n"
  using val_dec[of n] by (simp add: fmt_06d_def val_def val_zeros)

lemma cp_ID: "cp ''ID'' = [73, 68]"
  by (simp add: cp_def)

lemma id_value_id_of: "id_value (id_of i) = i"
  by (simp add: id_value_def id_of_def cp_ID val_fmt)

lemma id_of_inj: "id_of i = id_of j \<Longrightarrow> i = j"
  using id_value_id_of by metis

lemma length_dec: "n < 10 ^ k \<Longrightarrow> 0 < k \<Longrightarrow> length (dec n) \<le> k"
proof (induction n arbitrary: k rule: dec.induct)
  case (1 n)
  show ?case
  proof (cases "n < 10")
    case True then show ?thesis using 1(3) by (simp add: dec.simps[of n])
  next
    case False
    then obtain j where k: "k = Suc j" using 1(3) by (cases k) auto
    have "j > 0" using False 1(2) k by (cases j) auto
    moreover have "n div 10 < 10 ^ j" using 1(2) k by (simp add: less_mult_imp_div_less mult.commute)
    ultimately have "length (dec (n div 10)) \<le> j" using 1(1)[OF False] by blast
    then show ?thesis using False k by (simp add: dec.simps[of n])
  qed
qed

lemma dec_digits: "list_all is_digit (dec n)"
proof (induction n rule: dec.induct)
  case (1 n)
  show ?case
  proof (cases "n < 10")
    case True then show ?thesis by (simp add: dec.simps[of n] is_digit_def)
  next
    case False
    then have "n mod 10 \<le> 9" by simp
    then show ?thesis using False 1 by (simp add: dec.simps[of n] is_digit_def)
  qed
qed

lemma zeros_digits: "list_all is_digit (replicate k 48)"
  by (induction k) (simp_all add: is_digit_def)

lemma fmt_digits: "list_all is_digit (fmt_06d n)"
  by (simp add: fmt_06d_def dec_digits zeros_digits)

lemma length_fmt: "n \<le> 999999 \<Longrightarrow> length (fmt_06d n) = 6"
proof -
  assume "n \<le> 999999"
  then have "n < 10 ^ 6" by simp
  then have "length (dec n) \<le> 6" using length_dec[of n 6] by simp
  then show ?thesis by (simp add: fmt_06d_def)
qed

lemma six_digit_id_of: "n \<le> 999999 \<Longrightarrow> six_digit_id (id_of n)"
  by (simp add: six_digit_id_def id_of_def cp_ID length_fmt fmt_digits)

lemma val_append: "val (xs @ ys) = val xs * 10 ^ length ys + val ys"
proof (induction ys rule: rev_induct)
  case Nil then show ?case by (simp add: val_def)
next
  case (snoc y ys)
  have "val ((xs @ ys) @ [y]) = 10 * val (xs @ ys) + (y - 48)" by (simp add: val_def)
  also have "\<dots> = 10 * (val xs * 10 ^ length ys + val ys) + (y - 48)" using snoc by simp
  also have "\<dots> = val xs * 10 ^ length (ys @ [y]) + val (ys @ [y])"
    by (simp add: val_def algebra_simps)
  finally show ?case by simp
qed

lemma val_bound: "list_all is_digit xs \<Longrightarrow> val xs < 10 ^ length xs"
proof (induction xs rule: rev_induct)
  case Nil then show ?case by (simp add: val_def)
next
  case (snoc x xs)
  then have "val xs < 10 ^ length xs" and "x - 48 \<le> 9" by (auto simp: is_digit_def)
  then have "10 * val xs + (x - 48) < 10 * 10 ^ length xs" by linarith
  then show ?case by (simp add: val_def)
qed

lemma val_Cons: "val (x # xs) = (x - 48) * 10 ^ length xs + val xs"
  using val_append[of "[x]" xs] by (simp add: val_def)

lemma digits_lex:
  "length xs = length ys \<Longrightarrow> list_all is_digit xs \<Longrightarrow> list_all is_digit ys \<Longrightarrow>
   val xs < val ys \<Longrightarrow> xs < ys"
proof (induction xs ys rule: list_induct2)
  case Nil then show ?case by simp
next
  case (Cons x xs y ys)
  have bx: "val xs < 10 ^ length xs" and "val ys < 10 ^ length ys"
    using Cons.prems val_bound by auto
  then have by': "val ys < 10 ^ length xs" using Cons.hyps by simp
  have dx: "48 \<le> x" "48 \<le> y" using Cons.prems by (auto simp: is_digit_def)
  have lt: "(x - 48) * 10 ^ length xs + val xs < (y - 48) * 10 ^ length xs + val ys"
    using Cons.prems(3) Cons.hyps by (simp add: val_Cons)
  show ?case
  proof (cases "x = y")
    case True
    then have "val xs < val ys" using lt by simp
    then have "xs < ys" using Cons by simp
    then show ?thesis using True by simp
  next
    case False
    have "x < y"
    proof (rule ccontr)
      assume "\<not> x < y"
      then have "y - 48 + 1 \<le> x - 48" using False dx by linarith
      then have "(y - 48 + 1) * 10 ^ length xs \<le> (x - 48) * 10 ^ length xs"
        by (rule mult_le_mono1)
      then show False using lt by' by (simp add: algebra_simps)
    qed
    then show ?thesis by simp
  qed
qed

lemma id_of_less: "i < j \<Longrightarrow> j \<le> 999999 \<Longrightarrow> id_of i < id_of j"
proof -
  assume ij: "i < j" and j: "j \<le> 999999"
  then have "length (fmt_06d i) = length (fmt_06d j)" by (simp add: length_fmt)
  then have "fmt_06d i < fmt_06d j"
    using digits_lex[of "fmt_06d i" "fmt_06d j"] ij by (simp add: fmt_digits val_fmt)
  then show ?thesis by (simp add: id_of_def cp_ID)
qed

text \<open>
  What holds of the identifiers. For a DataFrame of \<open>N\<close> rows the identifier column holds,
  in row order, \<open>ID\<close> followed by the counter \<open>1 .. N\<close> printed with the format \<open>06d\<close>, without
  gaps or duplicates for every \<open>N\<close>. While \<open>N \<le> 999999\<close> every identifier is \<open>ID\<close> plus exactly
  six digits that read back as the row's position, and the identifiers increase strictly
  as strings.
\<close>

theorem generate_unique_ids_sequence:
  "unique_ids (generate_unique_ids df) = map (\<lambda>i. Str (id_of i)) [1..<Suc (length (rows df))]
   \<and> distinct (unique_ids (generate_unique_ids df))
   \<and> (length (rows df) \<le> 999999 \<longrightarrow>
        (\<forall>i\<in>{1..length (rows df)}. six_digit_id (id_of i) \<and> id_value (id_of i) = i)
      \<and> (\<forall>i j. 1 \<le> i \<and> i < j \<and> j \<le> length (rows df) \<longrightarrow> id_of i < id_of j))"
proof -
  have "inj_on (\<lambda>i. Str (id_of i)) (set [1..<Suc (length (rows df))])"
    by (rule inj_onI) (auto dest: id_of_inj)
  then have "distinct (map (\<lambda>i. Str (id_of i)) [1..<Suc (length (rows df))])"
    by (simp add: distinct_map)
  then show ?thesis
    by (auto simp: unique_ids_generate six_digit_id_of id_value_id_of intro: id_of_less)
qed

theorem generate_unique_ids_sequence_witness:
  "length (rows three_rows) \<le> 999999
   \<and> unique_ids (generate_unique_ids three_rows)
       = [Str (cp ''ID000001''), Str (cp ''ID000002''), Str (cp ''ID000003'')]
   \<and> six_digit_id (id_of 3) \<and> id_value (id_of 3) = 3 \<and> id_of 2 < id_of 3"
proof -
  have n: "length (rows three_rows) = 3" by (simp add: three_rows_def)
  have ids: "id_of (Suc 0) = cp ''ID000001''" "id_of 2 = cp ''ID000002''" "id_of 3 = cp ''ID000003''"
    by (simp_all add: id_of_def fmt_06d_def dec.simps cp_def eval_nat_numeral)
  have up: "[Suc 0..<4] = [Suc 0, 2, 3]" by code_simp
  note all = generate_unique_ids_sequence[of three_rows, unfolded n]
  from all have "unique_ids (generate_unique_ids three_rows) = map (\<lambda>i. Str (id_of i)) [Suc 0..<4]"
    by simp
  then have l: "unique_ids (generate_unique_ids three_rows)
       = [Str (cp ''ID000001''), Str (cp ''ID000002''), Str (cp ''ID000003'')]"
    by (simp add: up ids)
  from all have "\<forall>i\<in>{1..3}. six_digit_id (id_of i) \<and> id_value (id_of i) = i" by simp
  then have s: "six_digit_id (id_of 3) \<and> id_value (id_of 3) = 3" by simp
  from all have "\<forall>i j. 1 \<le> i \<and> i < j \<and> j \<le> 3 \<longrightarrow> id_of i < id_of j" by simp
  then have "1 \<le> (2::nat) \<and> (2::nat) < 3 \<and> (3::nat) \<le> 3 \<longrightarrow> id_of 2 < id_of 3" by blast
  then have o: "id_of 2 < id_of 3" by simp
  show ?thesis using n l s o by simp
qed

text \<open>
  Claim C7, at a DataFrame of one million rows. The docstring of \<open>generate_unique_ids\<close>
  promises the format \<open>ID\<close> followed by 6 digits, and the claim says the same. The width 6
  of the format \<open>06d\<close> is only a minimum: the identifier of the millionth row is
  \<open>ID1000000\<close>, seven digits after the prefix, and as a string it sorts before \<open>ID999999\<close>,
  the identifier of the row above it.
\<close>

theorem generate_unique_ids_million_rows:
  "unique_ids (generate_unique_ids million_rows) ! 999999 = Str (cp ''ID1000000'')
   \<and> \<not> six_digit_id (cp ''ID1000000'')
   \<and> unique_ids (generate_unique_ids million_rows) ! 999998 = Str (cp ''ID999999'')
   \<and> \<not> cp ''ID999999'' < cp ''ID1000000''"
proof -
  have n: "length (rows million_rows) = 1000000" by (simp add: million_rows_def)
  have a: "id_of 1000000 = cp ''ID1000000''"
    by (simp add: id_of_def fmt_06d_def dec.simps cp_def)
  have b: "id_of 999999 = cp ''ID999999''"
    by (simp add: id_of_def fmt_06d_def dec.simps cp_def)
  have c: "\<not> six_digit_id (cp ''ID1000000'')" by (simp add: six_digit_id_def cp_def)
  have d: "\<not> cp ''ID999999'' < cp ''ID1000000''" by (simp add: cp_def)
  have "unique_ids (generate_unique_ids million_rows) ! 999999 = Str (id_of 1000000)"
    by (simp add: unique_ids_generate n nth_append del: upt_Suc)
  moreover have "unique_ids (generate_unique_ids million_rows) ! 999998 = Str (id_of 999999)"
    by (simp add: unique_ids_generate n nth_append del: upt_Suc)
  ultimately show ?thesis using a b c d by simp
qed


section \<open>Validity filter: properties\<close>

lemma set_strip_subset: "set (strip U s) \<subseteq> set s"
proof -
  have "set (strip U s) \<subseteq> set (dropWhile (py_space U) s)"
    unfolding strip_def using set_dropWhileD by fastforce
  also have "\<dots> \<subseteq> set s" using set_dropWhileD by fastforce
  finally show ?thesis .
qed

lemma in_dropWhile: "x \<in> set xs \<Longrightarrow> \<not> P x \<Longrightarrow> x \<in> set (dropWhile P xs)"
  by (induction xs) auto

lemma strip_keeps: "x \<in> set s \<Longrightarrow> \<not> py_space U x \<Longrightarrow> x \<in> set (strip U s)"
  by (simp add: strip_def in_dropWhile)

lemma star_same_set:
  "star_then (\<lambda>x. x = c) K r \<Longrightarrow> \<exists>r'. K r' \<and> set r \<subseteq> insert c (set r')"
proof (induction r)
  case Nil
  then show ?case by auto
next
  case (Cons a r)
  show ?case
  proof (cases "K (a # r)")
    case True
    then show ?thesis by blast
  next
    case False
    then have "a = c" and "star_then (\<lambda>x. x = c) K r" using Cons.prems by auto
    then obtain r' where "K r'" "set r \<subseteq> insert c (set r')" using Cons.IH by blast
    then show ?thesis using \<open>a = c\<close> by auto
  qed
qed

lemma group_set:
  "group K s \<Longrightarrow> \<exists>c r'. K r' \<and> set s \<subseteq> insert c (set r')"
proof (cases s)
  case Nil
  assume "group K s"
  then show ?thesis using Nil by (simp add: group_def)
next
  case (Cons c r)
  assume "group K s"
  then have "star_then (\<lambda>x. x = c) K r" using Cons by (simp add: group_def)
  then obtain r' where "K r'" "set r \<subseteq> insert c (set r')" using star_same_set by blast
  then show ?thesis using Cons by auto
qed

lemma at_end_set: "at_end r \<Longrightarrow> set r \<subseteq> {newline}"
  by (auto simp: at_end_def)

lemma repeat_pattern_chars:
  assumes "repeat_pattern s"
  shows "\<exists>a b c. set s \<subseteq> {a, b, c, newline}"
proof -
  let ?K2 = "\<lambda>r2. at_end r2 \<or> group at_end r2"
  let ?K1 = "\<lambda>r1. at_end r1 \<or> group ?K2 r1"
  from assms obtain a r1 where r1: "?K1 r1" "set s \<subseteq> insert a (set r1)"
    unfolding repeat_pattern_def using group_set[of ?K1 s] by blast
  have "\<exists>b c. set r1 \<subseteq> {b, c, newline}"
  proof (cases "at_end r1")
    case True
    then show ?thesis using at_end_set by blast
  next
    case False
    then obtain b r2 where r2: "?K2 r2" "set r1 \<subseteq> insert b (set r2)"
      using r1(1) group_set[of ?K2 r1] by blast
    have "\<exists>c. set r2 \<subseteq> {c, newline}"
    proof (cases "at_end r2")
      case True
      then show ?thesis using at_end_set by blast
    next
      case False
      then obtain c r3 where "at_end r3" "set r2 \<subseteq> insert c (set r3)"
        using r2(1) group_set[of at_end r2] by blast
      then show ?thesis using at_end_set by blast
    qed
    then show ?thesis using r2(2) by blast
  qed
  then show ?thesis using r1(2) by blast
qed

lemma distinct_four:
  assumes "distinct w" "4 \<le> length w" "set w \<subseteq> {a, b, c}"
  shows False
proof -
  have "card (set w) \<le> card {a, b, c}" using assms(3) by (intro card_mono) auto
  also have "\<dots> \<le> 3" by (simp add: card_insert_if)
  finally show False using assms(1,2) by (simp add: distinct_card)
qed

lemma star_class_set:
  "star_then P at_end r \<Longrightarrow> \<forall>x\<in>set r. P x \<or> x = newline"
  by (induction r) (auto simp: at_end_def)

lemma space_punct_only_set:
  "space_punct_only U s \<Longrightarrow> \<forall>x\<in>set s. re_space U x \<or> re_punct U x \<or> x = newline"
  unfolding space_punct_only_def plus_then_def
  by (cases s) (auto dest: star_class_set)

lemma repeated_char_invalid:
  assumes "s \<noteq> []" "card (set s) = 1"
  shows "\<not> is_valid_text U (Str s)"
proof (cases "strip U s = []")
  case True
  then show ?thesis by simp
next
  case False
  then have "set (strip U s) \<noteq> {}" by simp
  moreover obtain c where "set s = {c}" using assms(2) by (auto simp: card_1_singleton_iff)
  ultimately have "set (strip U s) = {c}"
    using set_strip_subset[of U s] by (metis subset_singletonD)
  then have "card (set (strip U s)) = 1" by simp
  then show ?thesis by (simp add: Let_def)
qed

lemma alnum_run_valid:
  assumes dj: "tables_disjoint U" and run: "alnum_run U 4 w s" and letter: "list_ex (re_letter U) w"
  shows "is_valid_text U (Str s)"
proof -
  let ?t = "strip U s"
  have w_alnum: "\<forall>x\<in>set w. alnum U x" using run by (simp add: alnum_run_def list_all_iff)
  have "set w \<subseteq> set s" using run by (auto simp: alnum_run_def dest: set_mono_sublist)
  then have w_t: "set w \<subseteq> set ?t"
    using w_alnum dj strip_keeps[of _ s U] by (auto simp: tables_disjoint_def)
  have w4: "distinct w" "4 \<le> length w" using run by (simp_all add: alnum_run_def)
  have w_no_nl: "newline \<notin> set w" using w_alnum dj by (auto simp: tables_disjoint_def)
  obtain l where l: "l \<in> set w" "re_letter U l" using letter by (auto simp: list_ex_iff)
  have l_t: "l \<in> set ?t" using l(1) w_t by auto
  have l_alnum: "alnum U l" using l(2) by (simp add: alnum_def)
  have 1: "?t \<noteq> []" using l_t by auto
  have 2: "\<not> space_punct_only U ?t"
  proof
    assume "space_punct_only U ?t"
    then have "re_space U l \<or> re_punct U l \<or> l = newline"
      using space_punct_only_set l_t by blast
    then show False using l_alnum dj by (auto simp: tables_disjoint_def)
  qed
  have 3: "\<not> isdigit U ?t"
  proof
    assume "isdigit U ?t"
    then have "py_digit U l" using l_t by (simp add: isdigit_def list_all_iff)
    then show False using l(2) dj by (auto simp: tables_disjoint_def)
  qed
  have 4: "card (set ?t) \<noteq> 1"
  proof
    assume "card (set ?t) = 1"
    then obtain c where "set ?t = {c}" by (auto simp: card_1_singleton_iff)
    then have "set w \<subseteq> {c, c, c}" using w_t by auto
    then show False by (rule distinct_four[OF w4])
  qed
  have 5: "\<not> repeat_pattern ?t"
  proof
    assume "repeat_pattern ?t"
    then obtain a b c where "set ?t \<subseteq> {a, b, c, newline}" using repeat_pattern_chars by blast
    then have "set w \<subseteq> {a, b, c}" using w_t w_no_nl by auto
    then show False by (rule distinct_four[OF w4])
  qed
  have 6: "list_ex (alnum U) ?t" using l_t l_alnum by (auto simp: list_ex_iff)
  show ?thesis using 1 2 3 4 5 6 by (simp add: Let_def)
qed

lemma ascii_disjoint: "tables_disjoint ascii_db"
  by (auto simp: tables_disjoint_def ascii_db_def alnum_def newline_def)

text \<open>
  Claim C1, amended. A string that is one character repeated is never valid. A string is
  valid when it contains a run of at least four pairwise distinct letters or numbers of
  which at least one is a letter, for every table of character classes in which letters
  and numbers are neither white space nor punctuation and letters are not digits.
\<close>

theorem is_valid_text_cases:
  "(s \<noteq> [] \<and> card (set s) = 1 \<longrightarrow> \<not> is_valid_text U (Str s))
   \<and> (tables_disjoint U \<and> alnum_run U 4 w s \<and> list_ex (re_letter U) w \<longrightarrow> is_valid_text U (Str s))"
  using repeated_char_invalid alnum_run_valid by blast

theorem is_valid_text_cases_witness:
  "cp ''zzz'' \<noteq> [] \<and> card (set (cp ''zzz'')) = 1 \<and> \<not> is_valid_text ascii_db (Str (cp ''zzz''))
   \<and> tables_disjoint ascii_db \<and> alnum_run ascii_db 4 (cp ''ab1c'') (cp ''- ab1c!'')
   \<and> list_ex (re_letter ascii_db) (cp ''ab1c'') \<and> is_valid_text ascii_db (Str (cp ''- ab1c!''))"
proof -
  have a: "cp ''zzz'' \<noteq> [] \<and> card (set (cp ''zzz'')) = 1" by (simp add: cp_def)
  have "cp ''- ab1c!'' = cp ''- '' @ cp ''ab1c'' @ cp ''!''" by (simp add: cp_def)
  then have sub: "sublist (cp ''ab1c'') (cp ''- ab1c!'')" unfolding sublist_def by blast
  have run: "alnum_run ascii_db 4 (cp ''ab1c'') (cp ''- ab1c!'')"
    using sub by (simp add: alnum_run_def) (simp add: cp_def alnum_def ascii_db_def)
  have ltr: "list_ex (re_letter ascii_db) (cp ''ab1c'')" by (simp add: cp_def ascii_db_def)
  from is_valid_text_cases[where s = "cp ''zzz''" and U = ascii_db]
    is_valid_text_cases[where s = "cp ''- ab1c!''" and U = ascii_db and w = "cp ''ab1c''"]
  show ?thesis using a run ltr ascii_disjoint by blast
qed

text \<open>The string \<open>abc\<close> is three distinct letters in a row, and it is rejected.\<close>

theorem is_valid_text_abc_counterexample:
  "alnum_run ascii_db 3 (cp ''abc'') (cp ''abc'') \<and> \<not> is_valid_text ascii_db (Str (cp ''abc''))"
proof -
  have "alnum_run ascii_db 3 (cp ''abc'') (cp ''abc'')"
    by (simp add: alnum_run_def) (simp add: cp_def alnum_def ascii_db_def)
  moreover have "\<not> is_valid_text ascii_db (Str (cp ''abc''))"
    by (simp add: cp_def ascii_db_def strip_def space_punct_only_def plus_then_def at_end_def
        newline_def isdigit_def repeat_pattern_def group_def alnum_def)
  ultimately show ?thesis by simp
qed

text \<open>
  Claim C9. Whenever the filter returns a frame, its rows are the valid rows of the input
  in their original relative order: a subsequence of the input rows.
\<close>

theorem filter_invalid_text_keeps_order:
  "filter_invalid_text U df c = Inr out \<Longrightarrow>
     subseq (rows out) (rows df)
     \<and> rows out = filter (\<lambda>r. is_valid_text U (get r c)) (rows df)"
  by (auto simp: filter_invalid_text_def split: if_splits)

lemma valid_examples:
  "\<not> is_valid_text ascii_db (Str [])"
  "is_valid_text ascii_db (Str (cp ''hello world this is valid''))"
  "\<not> is_valid_text ascii_db (Str (cp ''???''))"
  "is_valid_text ascii_db (Str (cp ''second valid row''))"
  by (simp_all add: cp_def ascii_db_def strip_def space_punct_only_def plus_then_def at_end_def
        newline_def isdigit_def repeat_pattern_def group_def alnum_def card_set)

theorem filter_invalid_text_keeps_order_witness:
  "filter_invalid_text ascii_db sample_frame (cp ''text'')
     = Inr \<lparr>columns = [cp ''text''],
            rows = [[(cp ''text'', Str (cp ''hello world this is valid''))],
                    [(cp ''text'', Str (cp ''second valid row''))]]\<rparr>
   \<and> subseq [[(cp ''text'', Str (cp ''hello world this is valid''))],
              [(cp ''text'', Str (cp ''second valid row''))]] (rows sample_frame)"
proof -
  have g: "get [(cp ''text'', v)] (cp ''text'') = v" for v by (simp add: get_def)
  have e: "filter_invalid_text ascii_db sample_frame (cp ''text'')
     = Inr \<lparr>columns = [cp ''text''],
            rows = [[(cp ''text'', Str (cp ''hello world this is valid''))],
                    [(cp ''text'', Str (cp ''second valid row''))]]\<rparr>"
    unfolding filter_invalid_text_def sample_frame_def
    by (simp add: g valid_examples del: is_valid_text.simps)
  from filter_invalid_text_keeps_order[OF e] show ?thesis using e by simp
qed


section \<open>Batcher: properties\<close>

lemma length_range_from:
  "0 < B \<Longrightarrow> length (range_from i n B) = (n - i + B - 1) div B"
proof (induction i n B rule: range_from.induct)
  case (1 i n step)
  show ?case
  proof (cases "n \<le> i")
    case True
    then show ?thesis using 1(2) by (simp add: range_from.simps[of i n step])
  next
    case False
    then have ih: "length (range_from (i + step) n step) = (n - (i + step) + step - 1) div step"
      using 1 by simp
    show ?thesis
    proof (cases "step \<le> n - i")
      case True
      obtain m where m: "n - i = Suc m" using False by (cases "n - i") auto
      have "n - (i + step) + step - 1 = m" using True m by simp
      then have l: "length (range_from (i + step) n step) = m div step" using ih by simp
      have "n - i + step - 1 = m + step" using m by simp
      then have "(n - i + step - 1) div step = (m + step) div step" by (rule arg_cong)
      also have "\<dots> = Suc (m div step)" using 1(2) by simp
      finally have r: "(n - i + step - 1) div step = Suc (m div step)" .
      have "length (range_from i n step) = Suc (length (range_from (i + step) n step))"
        using False 1(2) by (simp add: range_from.simps[of i n step])
      then show ?thesis using l r by simp
    next
      case F2: False
      then have a: "n - (i + step) + step - 1 = step - 1" by simp
      have "step \<le> n - i + step - 1" "n - i + step - 1 < 2 * step" using False F2 by auto
      then have "(n - i + step - 1) div step = 1"
        by (metis One_nat_def div_nat_eqI mult.commute mult_2_right mult_Suc_right nat_mult_1_right numeral_2_eq_2)
      moreover have "length (range_from i n step) = Suc (length (range_from (i + step) n step))"
        using False 1(2) by (simp add: range_from.simps[of i n step])
      moreover have "(step - 1) div step = 0" using 1(2) by simp
      ultimately show ?thesis using ih a by simp
    qed
  qed
qed

lemma nth_range_from:
  "0 < B \<Longrightarrow> k < length (range_from i n B) \<Longrightarrow>
     range_from i n B ! k = i + k * B \<and> i + k * B < n"
proof (induction i n B arbitrary: k rule: range_from.induct)
  case (1 i n step)
  show ?case
  proof (cases "n \<le> i")
    case True
    then show ?thesis using 1(3) by (simp add: range_from.simps[of i n step])
  next
    case False
    then have rf: "range_from i n step = i # range_from (i + step) n step"
      using 1(2) by (simp add: range_from.simps[of i n step])
    show ?thesis
    proof (cases k)
      case 0
      then show ?thesis using rf False by simp
    next
      case (Suc j)
      then have "j < length (range_from (i + step) n step)" using 1(3) rf by simp
      then have "range_from (i + step) n step ! j = i + step + j * step \<and> i + step + j * step < n"
        using 1(1)[of j] False 1(2) by simp
      then show ?thesis using rf Suc by (simp add: algebra_simps)
    qed
  qed
qed

lemma concat_slices:
  "0 < B \<Longrightarrow> length xs \<le> n \<Longrightarrow>
     concat (map (\<lambda>i. iloc_slice i (i + B) xs) (range_from i n B)) = drop i xs"
proof (induction i n B rule: range_from.induct)
  case (1 i n step)
  show ?case
  proof (cases "n \<le> i")
    case True
    then show ?thesis using 1(3) by (simp add: range_from.simps[of i n step])
  next
    case False
    then have "concat (map (\<lambda>i. iloc_slice i (i + step) xs) (range_from (i + step) n step))
                 = drop (i + step) xs"
      using 1 by simp
    moreover have "take step (drop i xs) @ drop (i + step) xs = drop i xs"
      by (metis add.commute append_take_drop_id drop_drop)
    ultimately show ?thesis using False 1(2)
      by (simp add: range_from.simps[of i n step] iloc_slice_def)
  qed
qed

lemma ceiling_div:
  assumes "0 < B"
  shows "\<lceil>real N / real B\<rceil> = int ((N + B - 1) div B)"
proof -
  define q where "q = (N + B - 1) div B"
  have split: "q * B + (N + B - 1) mod B = N + B - 1" by (simp add: q_def)
  have "(N + B - 1) mod B < B" using assms by simp
  then have up: "N \<le> q * B" using split assms by linarith
  have lo: "q * B < N + B" using split assms by linarith
  have "real N \<le> real q * real B" using up by (metis of_nat_le_iff of_nat_mult)
  then have 1: "real N / real B \<le> real q" using assms by (simp add: pos_divide_le_eq)
  have "real q * real B < real N + real B" using lo by (metis of_nat_less_iff of_nat_mult of_nat_add)
  then have "(real q - 1) * real B < real N" by (simp add: algebra_simps)
  then have 2: "real q - 1 < real N / real B" using assms by (simp add: pos_less_divide_eq)
  have "\<lceil>real N / real B\<rceil> = int q"
    by (rule ceiling_unique) (use 1 2 in simp_all)
  then show ?thesis by (simp add: q_def)
qed

lemma traverse_all:
  "\<forall>x\<in>set xs. f x = Inr (g x) \<Longrightarrow> traverse f xs = Inr (map g xs)"
  by (induction xs) auto

lemma range_from_lt: "0 < B \<Longrightarrow> i \<in> set (range_from i0 n B) \<Longrightarrow> i < n"
  using nth_range_from by (metis in_set_conv_nth)

lemma batch_texts_ok:
  assumes B: "0 < B" and col: "c \<in> set (columns df)" and strs: "\<forall>r\<in>set (rows df). get r c \<noteq> NA"
  shows "batch_texts df c (int B)
           = Inr (map (\<lambda>b. join [32] (map py_str b)) (batches (map (\<lambda>r. get r c) (rows df)) B))"
proof -
  let ?cells = "map (\<lambda>r. get r c) (rows df)"
  have "NA \<notin> set ?cells" using strs by auto
  then have "NA \<notin> set (iloc_slice i j ?cells)" for i j
    unfolding iloc_slice_def by (meson in_set_dropD in_set_takeD)
  then have "join_cells (iloc_slice i j ?cells) = Inr (join [32] (map py_str (iloc_slice i j ?cells)))"
    for i j by (simp add: join_cells_def)
  then have "traverse (\<lambda>i. if c \<notin> set (columns df) then Inl (KeyError c)
                         else join_cells (iloc_slice i (i + nat (int B)) ?cells))
                (range_from 0 (length (rows df)) B)
             = Inr (map (\<lambda>i. join [32] (map py_str (iloc_slice i (i + B) ?cells)))
                        (range_from 0 (length (rows df)) B))"
    using col by (intro traverse_all) simp
  then show ?thesis using B by (simp add: batch_texts_def py_range_def batches_def comp_def)
qed

lemma length_batches: "0 < B \<Longrightarrow> length (batches xs B) = (length xs + B - 1) div B"
  by (simp add: batches_def length_range_from)

lemma concat_batches: "0 < B \<Longrightarrow> concat (batches xs B) = xs"
  using concat_slices[of B xs "length xs" 0] by (simp add: batches_def)

lemma nth_batches:
  assumes "0 < B" "k < length (batches xs B)"
  shows "batches xs B ! k = take B (drop (k * B) xs)" and "k * B < length xs"
proof -
  have k: "k < length (range_from 0 (length xs) B)" using assms(2) by (simp add: batches_def)
  from nth_range_from[OF assms(1) k]
  have "range_from 0 (length xs) B ! k = k * B" and "k * B < length xs" by simp_all
  then show "batches xs B ! k = take B (drop (k * B) xs)" and "k * B < length xs"
    using k by (simp_all add: batches_def iloc_slice_def)
qed

lemma full_batches:
  assumes "0 < B" "Suc k < length (batches xs B)"
  shows "length (batches xs B ! k) = B"
proof -
  have "Suc k * B < length xs" using nth_batches(2)[OF assms] .
  then have "B \<le> length xs - k * B" by simp
  moreover have "batches xs B ! k = take B (drop (k * B) xs)"
    using nth_batches(1)[OF assms(1), of k xs] assms(2) by simp
  ultimately show ?thesis by simp
qed

lemma last_batch:
  assumes "0 < B" "batches xs B \<noteq> []"
  shows "1 \<le> length (last (batches xs B)) \<and> length (last (batches xs B)) \<le> B"
proof -
  let ?k = "length (batches xs B) - 1"
  have k: "?k < length (batches xs B)" using assms(2) by simp
  have "last (batches xs B) = batches xs B ! ?k" using assms(2) by (simp add: last_conv_nth)
  then have "last (batches xs B) = take B (drop (?k * B) xs)"
    using nth_batches(1)[OF assms(1) k] by simp
  moreover have "?k * B < length xs" using nth_batches(2)[OF assms(1) k] .
  ultimately show ?thesis using assms(1) by simp
qed

lemma markdown_tables_ok:
  assumes "0 < B" "list_all (\<lambda>c. c \<in> set (columns df)) cols" "how = cp ''any'' \<or> how = cp ''all''"
  shows "dataframe_to_markdown_tables df cols (int B) how (cp ''list'')
           = Inr (MdList (map (render_table cols) (batches (table_data df cols how) B)))"
  using assms by (auto simp: dataframe_to_markdown_tables_def table_batches_def Let_def)

text \<open>
  Claim C6. For a positive batch size \<open>B\<close> a sequence of \<open>N\<close> items is cut into
  \<open>\<lceil>N / B\<rceil>\<close> batches; batch \<open>k\<close> is the \<open>B\<close> items from position \<open>k * B\<close> on, so the batches
  are contiguous and in input order; every batch but the last has exactly \<open>B\<close> items, the
  last has between one and \<open>B\<close>; and the batches concatenated give the sequence back.
  \<open>batch_texts\<close> joins each of these batches with single spaces and
  \<open>dataframe_to_markdown_tables\<close> renders each of them as one table.
\<close>

theorem batches_partition:
  "0 < B \<Longrightarrow>
     int (length (batches xs B)) = \<lceil>real (length xs) / real B\<rceil>
   \<and> concat (batches xs B) = xs
   \<and> (\<forall>k<length (batches xs B). batches xs B ! k = take B (drop (k * B) xs))
   \<and> (\<forall>k. Suc k < length (batches xs B) \<longrightarrow> length (batches xs B ! k) = B)
   \<and> (batches xs B \<noteq> [] \<longrightarrow>
        1 \<le> length (last (batches xs B)) \<and> length (last (batches xs B)) \<le> B)
   \<and> (c \<in> set (columns df) \<and> (\<forall>r\<in>set (rows df). get r c \<noteq> NA) \<longrightarrow>
        batch_texts df c (int B)
          = Inr (map (\<lambda>b. join [32] (map py_str b)) (batches (map (\<lambda>r. get r c) (rows df)) B)))
   \<and> (list_all (\<lambda>c. c \<in> set (columns df)) cols \<and> (how = cp ''any'' \<or> how = cp ''all'') \<longrightarrow>
        dataframe_to_markdown_tables df cols (int B) how (cp ''list'')
          = Inr (MdList (map (render_table cols) (batches (table_data df cols how) B))))"
proof -
  assume B: "0 < B"
  have 1: "int (length (batches xs B)) = \<lceil>real (length xs) / real B\<rceil>"
    using B by (simp add: length_batches ceiling_div)
  have 3: "\<forall>k<length (batches xs B). batches xs B ! k = take B (drop (k * B) xs)"
    using nth_batches(1)[OF B] by blast
  have 4: "\<forall>k. Suc k < length (batches xs B) \<longrightarrow> length (batches xs B ! k) = B"
    using full_batches[OF B] by blast
  show ?thesis
    using 1 3 4 concat_batches[OF B] last_batch[OF B] batch_texts_ok[OF B] markdown_tables_ok[OF B]
    by blast
qed

lemma batches_five: "batches [10, 20, 30, 40, 50 :: nat] 2 = [[10, 20], [30, 40], [50]]"
  by (simp add: batches_def range_from.simps iloc_slice_def)

theorem batches_partition_witness:
  "(0::nat) < 2
   \<and> batches [10, 20, 30, 40, 50 :: nat] 2 = [[10, 20], [30, 40], [50]]
   \<and> int (length (batches [10, 20, 30, 40, 50 :: nat] 2)) = \<lceil>real (length [10, 20, 30, 40, 50 :: nat]) / real (2::nat)\<rceil>
   \<and> concat (batches [10, 20, 30, 40, 50 :: nat] 2) = [10, 20, 30, 40, 50]
   \<and> length (batches [10, 20, 30, 40, 50 :: nat] 2 ! 0) = 2
   \<and> length (last (batches [10, 20, 30, 40, 50 :: nat] 2)) = 1
   \<and> batch_texts sample_frame (cp ''text'') (int 2)
       = Inr (map (\<lambda>b. join [32] (map py_str b))
                  (batches (map (\<lambda>r. get r (cp ''text'')) (rows sample_frame)) 2))
   \<and> dataframe_to_markdown_tables sample_frame [cp ''text''] (int 2) (cp ''any'') (cp ''list'')
       = Inr (MdList (map (render_table [cp ''text''])
                          (batches (table_data sample_frame [cp ''text''] (cp ''any'')) 2)))"
proof -
  have h1: "cp ''text'' \<in> set (columns sample_frame)
            \<and> (\<forall>r\<in>set (rows sample_frame). get r (cp ''text'') \<noteq> NA)"
    by (simp add: sample_frame_def get_def)
  have h2: "list_all (\<lambda>c. c \<in> set (columns sample_frame)) [cp ''text'']
            \<and> (cp ''any'' = cp ''any'' \<or> cp ''any'' = cp ''all'')"
    by (simp add: sample_frame_def)
  have p: "(0::nat) < 2" by simp
  note t = batches_partition[OF p, where xs = "[10, 20, 30, 40, 50 :: nat]"]
  from t have a: "int (length (batches [10, 20, 30, 40, 50 :: nat] 2))
        = \<lceil>real (length [10, 20, 30, 40, 50 :: nat]) / real (2::nat)\<rceil>" by blast
  from t have b: "concat (batches [10, 20, 30, 40, 50 :: nat] 2) = [10, 20, 30, 40, 50]" by blast
  from t have "\<forall>k. Suc k < length (batches [10, 20, 30, 40, 50 :: nat] 2)
           \<longrightarrow> length (batches [10, 20, 30, 40, 50 :: nat] 2 ! k) = 2" by blast
  then have c: "length (batches [10, 20, 30, 40, 50 :: nat] 2 ! 0) = 2"
    by (simp add: batches_five)
  from batches_partition[OF p, where df = sample_frame and c = "cp ''text''"] h1
  have d: "batch_texts sample_frame (cp ''text'') (int 2)
       = Inr (map (\<lambda>b. join [32] (map py_str b))
                  (batches (map (\<lambda>r. get r (cp ''text'')) (rows sample_frame)) 2))" by blast
  from batches_partition[OF p, where df = sample_frame and cols = "[cp ''text'']" and how = "cp ''any''"] h2
  have e: "dataframe_to_markdown_tables sample_frame [cp ''text''] (int 2) (cp ''any'') (cp ''list'')
       = Inr (MdList (map (render_table [cp ''text''])
                          (batches (table_data sample_frame [cp ''text''] (cp ''any'')) 2)))" by blast
  show ?thesis using p a b c d e by (simp add: batches_five)
qed


section \<open>Batch classifier: properties\<close>

lemma classify_loop_concat:
  "classify_loop ch tables acc = acc @ concat (map (classify_single_batch ch) tables)"
  by (induction tables arbitrary: acc) auto

lemma failed_batch_empty: "ch table = Inl e \<Longrightarrow> classify_single_batch ch table = []"
  by (simp add: classify_single_batch_def)

lemma classify_loop_all_fail:
  "\<forall>table\<in>set tables. isl (ch table) \<Longrightarrow> classify_loop ch tables [] = []"
  by (auto simp: classify_loop_concat classify_single_batch_def isl_def split: sum.splits)

lemma classify_loop_records:
  "c \<in> set (classify_loop ch tables []) \<Longrightarrow> \<exists>table recs. ch table = Inr recs \<and> c \<in> set recs"
  by (auto simp: classify_loop_concat classify_single_batch_def split: sum.splits) metis

lemma classify_texts_cases:
  assumes "classify_texts ch df tc ic B ml = Inr out"
  shows "\<exists>tables. dataframe_to_markdown_tables df [ic, tc] B (cp ''any'') (cp ''list'') = Inr (MdList tables)
            \<and> classify_loop ch tables [] \<noteq> []
            \<and> out = assemble ml (merge_left (rows df) (classify_loop ch tables []))"
  using assms unfolding classify_texts_def
  by (auto simp: Let_def split: sum.splits md_output.splits if_splits)




lemma assemble_length: "length (assemble ml joined) = length joined"
  by (simp add: assemble_def)


lemma two_rows_tables:
  "dataframe_to_markdown_tables two_rows [unique_id_col, cp ''text''] 20 (cp ''any'') (cp ''list'')
     = Inr (MdList [render_table [unique_id_col, cp ''text'']
                      [[Str (cp ''ID000001''), Str (cp ''first text'')],
                       [Str (cp ''ID000002''), Str (cp ''second text'')]]])"
  by (simp add: dataframe_to_markdown_tables_def table_batches_def table_data_def dropna_def
      has_na_def table_row_def two_rows_def get_def unique_id_col_def batches_def
      range_from.simps iloc_slice_def cp_def)


text \<open>
  Claim C4, at a run whose only batch fails. \<open>classify_single_batch\<close> swallows the
  exception and contributes the empty list, as the claim says; but then the accumulated
  result list is empty, \<open>pd.DataFrame([])\<close> has no column \<open>id\<close>, and the final merge raises
  \<open>KeyError\<close> to the caller instead of returning the rows with null classification fields.
\<close>

theorem classify_texts_all_batches_fail:
  "classify_single_batch failing_chain (cp ''| unique_id | text |'') = []
   \<and> classify_texts failing_chain two_rows (cp ''text'') unique_id_col 20 False = Inl (KeyError (cp ''id''))
   \<and> classify_texts failing_chain two_rows (cp ''text'') unique_id_col 20 True = Inl (KeyError (cp ''id''))"
  by (simp add: classify_texts_def two_rows_tables classify_single_batch_def failing_chain_def)


section \<open>Missing values and the final join\<close>












section \<open>Multi-label expansion\<close>

lemma set_category_keys:
  "set (category_keys joined) = (\<Union>p\<in>set joined. fst ` set (series_of (categories_cell p)))"
  by (auto simp: category_keys_def)

lemma expand_row_names:
  "map fst (expand_row keys v) = map (\<lambda>k. cp ''category_'' @ k) keys"
  by (simp add: expand_row_def comp_def)

lemma expand_row_lookup:
  "k \<in> set keys \<Longrightarrow>
     map_of (expand_row keys v) (cp ''category_'' @ k)
       = Some (case map_of (series_of v) k of None \<Rightarrow> Null | Some f \<Rightarrow> f)"
  unfolding expand_row_def by (induction keys) auto

lemma series_flags_lookup:
  "map_of (series_of (Some (Flags d))) k = map_option FBool (map_of d k)"
  by (induction d) auto

lemma assemble_multi_nth:
  "i < length joined \<Longrightarrow>
     class_fields (assemble True joined ! i)
       = expand_row (category_keys joined) (categories_cell (joined ! i))"
  by (simp add: assemble_def)

lemma out_column_nth:
  "i < length out \<Longrightarrow>
     out_column name out ! i = (case map_of (class_fields (out ! i)) name of None \<Rightarrow> Null | Some f \<Rightarrow> f)"
  by (simp add: out_column_def)

text \<open>
  For a row whose record carries an object from category names to Booleans, the column
  of a name holds the Boolean the object gives to that name, and null when the object
  does not contain the name: the code spreads the object with \<open>pd.Series\<close> and fills
  nothing in.
\<close>

lemma flags_column_value:
  assumes "i < length joined" "k \<in> set (category_keys joined)"
    "categories_cell (joined ! i) = Some (Flags d)"
  shows "out_column (cp ''category_'' @ k) (assemble True joined) ! i
           = (case map_of d k of None \<Rightarrow> Null | Some b \<Rightarrow> FBool b)"
proof -
  have "out_column (cp ''category_'' @ k) (assemble True joined) ! i
          = (case map_of (expand_row (category_keys joined) (Some (Flags d))) (cp ''category_'' @ k)
             of None \<Rightarrow> Null | Some f \<Rightarrow> f)"
    using assms by (simp add: out_column_nth assemble_length assemble_multi_nth)
  also have "\<dots> = (case map_of (series_of (Some (Flags d))) k of None \<Rightarrow> Null | Some f \<Rightarrow> f)"
    using assms(2) by (simp add: expand_row_lookup)
  also have "\<dots> = (case map_of d k of None \<Rightarrow> Null | Some b \<Rightarrow> FBool b)"
    by (simp add: series_flags_lookup del: series_of.simps split: option.splits)
  finally show ?thesis .
qed

lemma flags_run:
  "classify_texts flags_chain two_rows (cp ''text'') unique_id_col 20 True
     = Inr [\<lparr>kept = [(cp ''text'', Str (cp ''first text''))],
             class_fields = [(cp ''category_A'', FBool True), (cp ''category_B'', FBool True)]\<rparr>,
            \<lparr>kept = [(cp ''text'', Str (cp ''second text''))],
             class_fields = [(cp ''category_A'', Null), (cp ''category_B'', FBool True)]\<rparr>]"
  by (simp add: classify_texts_def two_rows_tables classify_single_batch_def flags_chain_def
        assemble_def merge_left_def categories_cell_def drop_column_def category_keys_def
        expand_row_def)
     (simp add: two_rows_def get_def unique_id_col_def cp_def)

lemma names_run:
  "classify_texts names_chain two_rows (cp ''text'') unique_id_col 20 True
     = Inr [\<lparr>kept = [(cp ''text'', Str (cp ''first text''))],
             class_fields = [(cp ''category_0'', FStr (cp ''A'')), (cp ''category_1'', FStr (cp ''B''))]\<rparr>,
            \<lparr>kept = [(cp ''text'', Str (cp ''second text''))],
             class_fields = [(cp ''category_0'', FStr (cp ''B'')), (cp ''category_1'', Null)]\<rparr>]"
  by (simp add: classify_texts_def two_rows_tables classify_single_batch_def names_chain_def
        assemble_def merge_left_def categories_cell_def drop_column_def category_keys_def
        expand_row_def)
     (simp add: two_rows_def get_def unique_id_col_def cp_def dec.simps upt_rec)

text \<open>When the model spells out the categories it does not assign, the columns are the
  indicator columns of the spec's scenario.\<close>

lemma full_flags_run:
  "classify_texts full_flags_chain two_rows (cp ''text'') unique_id_col 20 True
     = Inr [\<lparr>kept = [(cp ''text'', Str (cp ''first text''))],
             class_fields = [(cp ''category_A'', FBool True), (cp ''category_B'', FBool True)]\<rparr>,
            \<lparr>kept = [(cp ''text'', Str (cp ''second text''))],
             class_fields = [(cp ''category_A'', FBool False), (cp ''category_B'', FBool True)]\<rparr>]"
  by (simp add: classify_texts_def two_rows_tables classify_single_batch_def full_flags_chain_def
        assemble_def merge_left_def categories_cell_def drop_column_def category_keys_def
        expand_row_def)
     (simp add: two_rows_def get_def unique_id_col_def cp_def)

text \<open>
  Claim C3, at the scenario of the spec: \<open>{A, B}\<close> assigned to the first row and \<open>{B}\<close> to
  the second. The page that shows the result reads every \<open>category_\<close> column as a truth
  value, so the columns are meant to be the Boolean indicators the claim describes. The
  code builds no indicator. With the assigned names sent as objects, \<open>{A: true, B: true}\<close>
  and \<open>{B: true}\<close>, the second row's \<open>category_A\<close> is null where the claim has \<open>false\<close>;
  with the names sent as lists, the columns are the positions \<open>category_0\<close> and
  \<open>category_1\<close> and there is no column \<open>category_A\<close> at all.
\<close>

theorem multi_label_expansion_scenario:
  "map_sum id (out_column (cp ''category_A''))
       (classify_texts flags_chain two_rows (cp ''text'') unique_id_col 20 True)
     = Inr [FBool True, Null]
   \<and> map_sum id (out_column (cp ''category_B''))
       (classify_texts flags_chain two_rows (cp ''text'') unique_id_col 20 True)
     = Inr [FBool True, FBool True]
   \<and> map_sum id (map (map fst \<circ> class_fields))
       (classify_texts names_chain two_rows (cp ''text'') unique_id_col 20 True)
     = Inr [[cp ''category_0'', cp ''category_1''], [cp ''category_0'', cp ''category_1'']]"
  by (simp add: flags_run names_run out_column_def) (simp add: cp_def)


section \<open>Translator: properties\<close>

lemma traverse_fails:
  "x \<in> set xs \<Longrightarrow> isl (f x) \<Longrightarrow> isl (traverse f xs)"
  by (induction xs) (auto split: sum.splits)

lemma skip_chinese:
  "contains_chinese s \<Longrightarrow> translate_with_semaphore ch topic s = (Inr s, 0)"
  by (simp add: translate_with_semaphore_def)

lemma batch_all_chinese:
  assumes "\<forall>s\<in>set texts. contains_chinese s"
  shows "batch_translate ch texts topic = (Inr texts, 0)"
proof -
  have m: "map (translate_with_semaphore ch topic) texts = map (\<lambda>s. (Inr s, 0)) texts"
    using assms by (simp add: skip_chinese)
  have "traverse fst (map (\<lambda>s. (Inr s :: exn + pystr, 0::nat)) texts) = Inr texts"
    by (induction texts) auto
  moreover have "sum_list (map snd (map (\<lambda>s. (Inr s :: exn + pystr, 0::nat)) texts)) = 0"
    by (simp add: comp_def)
  ultimately show ?thesis by (simp add: batch_translate_def gather_def m)
qed

text \<open>
  Claim C5. A non-empty string in which at least half of the characters lie in the CJK
  range is returned unchanged, and no model invocation is made, by the task of the batch
  path and by the single-text path alike; a batch of such strings comes back as it went
  in, with no invocation at all.
\<close>

theorem chinese_text_not_translated:
  "(s \<noteq> [] \<and> (1 / 2 :: real) \<le> real (length (filter is_cjk s)) / real (length s)
      \<longrightarrow> translate_with_semaphore ch topic s = (Inr s, 0) \<and> translate_text ch s topic = (s, 0))
   \<and> ((\<forall>s\<in>set texts. s \<noteq> [] \<and> (1 / 2 :: real) \<le> real (length (filter is_cjk s)) / real (length s))
      \<longrightarrow> batch_translate ch texts topic = (Inr texts, 0))"
proof -
  have c: "contains_chinese s"
    if "s \<noteq> [] \<and> (1 / 2 :: real) \<le> real (length (filter is_cjk s)) / real (length s)" for s
    using that by (simp add: contains_chinese_def)
  have 1: "translate_with_semaphore ch topic s = (Inr s, 0) \<and> translate_text ch s topic = (s, 0)"
    if "s \<noteq> [] \<and> (1 / 2 :: real) \<le> real (length (filter is_cjk s)) / real (length s)"
    using c[OF that] by (simp add: translate_with_semaphore_def translate_text_def)
  have 2: "batch_translate ch texts topic = (Inr texts, 0)"
    if "\<forall>s\<in>set texts. s \<noteq> [] \<and> (1 / 2 :: real) \<le> real (length (filter is_cjk s)) / real (length s)"
  proof (rule batch_all_chinese)
    show "\<forall>s\<in>set texts. contains_chinese s" using that c by blast
  qed
  show ?thesis using 1 2 by blast
qed

theorem chinese_text_not_translated_witness:
  "[20013, 25991, 97] \<noteq> ([] :: pystr)
   \<and> (1 / 2 :: real) \<le> real (length (filter is_cjk [20013, 25991, 97])) / real (length [20013, 25991, 97 :: nat])
   \<and> translate_with_semaphore broken_model (cp ''hr'') [20013, 25991, 97] = (Inr [20013, 25991, 97], 0)
   \<and> translate_text broken_model [20013, 25991, 97] (cp ''hr'') = ([20013, 25991, 97], 0)
   \<and> batch_translate broken_model [[20013, 25991, 97], [20013]] (cp ''hr'') = (Inr [[20013, 25991, 97], [20013]], 0)"
proof -
  have h1: "[20013, 25991, 97] \<noteq> ([] :: pystr)
   \<and> (1 / 2 :: real) \<le> real (length (filter is_cjk [20013, 25991, 97])) / real (length [20013, 25991, 97 :: nat])"
    by (simp add: is_cjk_def)
  have h2: "\<forall>s\<in>set [[20013, 25991, 97], [20013]].
      s \<noteq> [] \<and> (1 / 2 :: real) \<le> real (length (filter is_cjk s)) / real (length s)"
    by (simp add: is_cjk_def)
  from chinese_text_not_translated[where s = "[20013, 25991, 97]" and ch = broken_model
      and topic = "cp ''hr''" and texts = "[[20013, 25991, 97], [20013]]"]
  show ?thesis using h1 h2 by blast
qed

text \<open>
  Claim C2, at a batch of three texts of which the model fails on the second.
  \<open>batch_translate\<close> raises the model's exception, and so does \<open>perform_translation\<close>, the
  caller for uploaded CSV files: no result list is returned and no item carries an
  inline error string. The inline marker exists only in \<open>translate_text\<close>, the single-text
  path. Without the failing text the same batch completes.
\<close>

theorem batch_translate_failure_propagates:
  "fst (batch_translate flaky_model [cp ''good'', cp ''bad'', cp ''fine''] (cp ''hr''))
     = Inl (ModelError (cp ''timeout''))
   \<and> translate_text flaky_model (cp ''bad'') (cp ''hr'') = (error_marker @ cp ''timeout'', 1)
   \<and> fst (batch_translate flaky_model [cp ''good'', cp ''fine''] (cp ''hr''))
     = Inr [cp ''T:good'', cp ''T:fine'']
   \<and> perform_translation flaky_model csv_frame (cp ''text'') (cp ''hr'')
     = Inl (ModelError (cp ''timeout''))"
  by (simp add: batch_translate_def gather_def translate_with_semaphore_def translate_text_def
      translate_def flaky_model_def validate_translation_result_def contains_chinese_def
      is_cjk_def perform_translation_def csv_frame_def get_def cp_def)

text \<open>In general: one text whose translation fails makes the whole batch raise.\<close>

lemma batch_translate_raises:
  assumes "s \<in> set texts" "\<not> contains_chinese s" "translate ch s topic = Inl e"
  shows "isl (fst (batch_translate ch texts topic))"
proof -
  have "isl (fst (translate_with_semaphore ch topic s))"
    using assms by (simp add: translate_with_semaphore_def)
  moreover have "translate_with_semaphore ch topic s \<in> set (map (translate_with_semaphore ch topic) texts)"
    using assms(1) by simp
  ultimately show ?thesis
    unfolding batch_translate_def gather_def using traverse_fails by fastforce
qed

section \<open>Structured LLM invoker: properties\<close>




end
